theory Spec2Isabelle
  imports Main
begin

section \<open>The mouse-position store (src/Window/useMousePosition.ts)\<close>

text \<open>
  \<^verbatim>\<open>createMousePositionStore\<close> closes over two variables, \<^verbatim>\<open>listeners\<close> (an array of
  zero-argument callbacks) and \<^verbatim>\<open>currentPosition\<close> (a reference to an object
  \<^verbatim>\<open>{x, y}\<close>). JavaScript compares both callbacks and position objects by identity, so
  the model names a callback by a number (its identity as a function object) and a
  position object by its address in a heap of allocated objects. The coordinates are
  JavaScript numbers which the store only copies; they are integers here.
\<close>

record MousePosition =
  pos_x :: int
  pos_y :: int

record MouseEvent =
  clientX :: int
  clientY :: int

type_synonym ref = nat

type_synonym lid = nat

text \<open>
  What the body of a listener may do with the store while it runs: call
  \<^verbatim>\<open>subscribe(l)\<close>, call the function that an earlier \<^verbatim>\<open>subscribe(l)\<close> returned, or
  call \<^verbatim>\<open>getSnapshot()\<close>. A listener returns normally and does not itself dispatch
  a mouse-move event.
\<close>

datatype call = Subscribe lid | Unsubscribe lid | GetSnapshot

text \<open>
  Everything of the state but the listener array. \<open>currentPosition\<close> is the closure
  variable, \<open>objects\<close> the heap of position objects (a reference is an index into it,
  allocation appends), \<open>registered\<close> says whether \<^verbatim>\<open>handleMouseMove\<close> was added to
  \<^verbatim>\<open>window\<close>. The last two fields record what an observer sees: \<open>invoked\<close> lists the
  listener calls in the order they happen, \<open>seen\<close> lists each result of a
  \<^verbatim>\<open>getSnapshot()\<close> call made from inside a listener, with the listener that made it.
\<close>

record position_state =
  currentPosition :: ref
  objects :: "MousePosition list"
  registered :: bool
  invoked :: "lid list"
  seen :: "(lid \<times> ref) list"

text \<open>
  The store with the variable \<^verbatim>\<open>listeners\<close> as the list of callbacks it currently
  holds. The claims are proved about this model; a later subsection relates it to one
  where the variable holds a reference to a mutable array object.
\<close>

record store = position_state +
  listeners :: "lid list"

text \<open>
  \<^verbatim>\<open>let listeners = []; let currentPosition = { x: 0, y: 0 };\<close> and, where a
  \<^verbatim>\<open>window\<close> exists, \<^verbatim>\<open>window.addEventListener("mousemove", handleMouseMove)\<close>.
\<close>

definition createMousePositionStore :: "bool \<Rightarrow> store" where
  "createMousePositionStore window_defined =
     \<lparr>currentPosition = 0, objects = [\<lparr>pos_x = 0, pos_y = 0\<rparr>],
      registered = window_defined, invoked = [], seen = [], listeners = []\<rparr>"

text \<open>\<^verbatim>\<open>listeners.push(listener)\<close>: the callback is appended as it is given.\<close>

definition subscribe :: "lid \<Rightarrow> store \<Rightarrow> store" where
  "subscribe listener s = s\<lparr>listeners := listeners s @ [listener]\<rparr>"

text \<open>
  The function returned by \<^verbatim>\<open>subscribe(listener)\<close>:
  \<^verbatim>\<open>listeners = listeners.filter((l) => l !== listener)\<close>. It captures the callback and
  nothing else, so every function returned for the same callback behaves alike.
\<close>

definition unsubscribe :: "lid \<Rightarrow> store \<Rightarrow> store" where
  "unsubscribe listener s = s\<lparr>listeners := filter (\<lambda>l. l \<noteq> listener) (listeners s)\<rparr>"

text \<open>\<^verbatim>\<open>getSnapshot: () => currentPosition\<close> returns the reference.\<close>

definition getSnapshot :: "'a position_state_scheme \<Rightarrow> ref" where
  "getSnapshot s = currentPosition s"

text \<open>A listener \<open>l\<close> calls \<^verbatim>\<open>getSnapshot()\<close>; the result is recorded.\<close>

definition read_snapshot :: "lid \<Rightarrow> 'a position_state_scheme \<Rightarrow> 'a position_state_scheme" where
  "read_snapshot l s = s\<lparr>seen := seen s @ [(l, getSnapshot s)]\<rparr>"

text \<open>The call of listener \<open>l\<close> begins; it is recorded.\<close>

definition enter :: "lid \<Rightarrow> 'a position_state_scheme \<Rightarrow> 'a position_state_scheme" where
  "enter l s = s\<lparr>invoked := invoked s @ [l]\<rparr>"

text \<open>
  \<^verbatim>\<open>currentPosition = { x: event.clientX, y: event.clientY }\<close>: the object literal
  allocates a new object and the variable is bound to it.
\<close>

definition set_position :: "MouseEvent \<Rightarrow> 'a position_state_scheme \<Rightarrow> 'a position_state_scheme" where
  "set_position event s =
     s\<lparr>currentPosition := length (objects s),
       objects := objects s @ [\<lparr>pos_x = clientX event, pos_y = clientY event\<rparr>]\<rparr>"

fun perform :: "lid \<Rightarrow> call \<Rightarrow> store \<Rightarrow> store" where
  "perform l (Subscribe k) s = subscribe k s"
| "perform l (Unsubscribe k) s = unsubscribe k s"
| "perform l GetSnapshot s = read_snapshot l s"

fun perform_all :: "lid \<Rightarrow> call list \<Rightarrow> store \<Rightarrow> store" where
  "perform_all l [] s = s"
| "perform_all l (c # cs) s = perform_all l cs (perform l c s)"

text \<open>
  One call \<^verbatim>\<open>listener()\<close>. What the callback does is given by \<open>body\<close>, which may depend
  on the callback and on everything that has happened so far.
\<close>

definition invoke :: "(lid \<Rightarrow> store \<Rightarrow> call list) \<Rightarrow> lid \<Rightarrow> store \<Rightarrow> store" where
  "invoke body l s = perform_all l (body l s) (enter l s)"

text \<open>
  \<^verbatim>\<open>listeners.forEach((listener) => listener())\<close> on the list \<open>ls\<close> that the array holds
  when \<^verbatim>\<open>forEach\<close> is called. That these are the elements visited, whatever the
  callbacks do to the array meanwhile, is lemma \<open>emitChange_arr_view\<close> below.
\<close>

fun forEach :: "(lid \<Rightarrow> store \<Rightarrow> store) \<Rightarrow> lid list \<Rightarrow> store \<Rightarrow> store" where
  "forEach f [] s = s"
| "forEach f (l # ls) s = forEach f ls (f l s)"

definition emitChange :: "(lid \<Rightarrow> store \<Rightarrow> call list) \<Rightarrow> store \<Rightarrow> store" where
  "emitChange body s = forEach (invoke body) (listeners s) s"

text \<open>\<^verbatim>\<open>currentPosition = { x: event.clientX, y: event.clientY }; emitChange();\<close>\<close>

definition handleMouseMove :: "(lid \<Rightarrow> store \<Rightarrow> call list) \<Rightarrow> MouseEvent \<Rightarrow> store \<Rightarrow> store" where
  "handleMouseMove body event s = emitChange body (set_position event s)"

text \<open>
  The browser delivering a mouse-move event: \<^verbatim>\<open>handleMouseMove\<close> runs if it was
  registered when the store was created.
\<close>

definition window_mousemove :: "(lid \<Rightarrow> store \<Rightarrow> call list) \<Rightarrow> MouseEvent \<Rightarrow> store \<Rightarrow> store" where
  "window_mousemove body event s = (if registered s then handleMouseMove body event s else s)"

text \<open>A sequence of mouse-move events, each handled to completion before the next.\<close>

fun mousemoves :: "(lid \<Rightarrow> store \<Rightarrow> call list) \<Rightarrow> MouseEvent list \<Rightarrow> store \<Rightarrow> store" where
  "mousemoves body [] s = s"
| "mousemoves body (e # es) s = mousemoves body es (handleMouseMove body e s)"

text \<open>The states in which the events of a sequence arrive, one per event.\<close>

fun cycle_starts :: "(lid \<Rightarrow> store \<Rightarrow> call list) \<Rightarrow> MouseEvent list \<Rightarrow> store \<Rightarrow> store list" where
  "cycle_starts body [] s = []"
| "cycle_starts body (e # es) s = s # cycle_starts body es (handleMouseMove body e s)"

text \<open>
  What reaches the store from outside a notification cycle: the rendering layer calls
  \<^verbatim>\<open>subscribe\<close> or a function that \<^verbatim>\<open>subscribe\<close> returned, or the browser delivers a
  mouse-move event.
\<close>

datatype outside_call = Call_subscribe lid | Call_unsubscribe lid | Mousemove MouseEvent

fun step :: "(lid \<Rightarrow> store \<Rightarrow> call list) \<Rightarrow> outside_call \<Rightarrow> store \<Rightarrow> store" where
  "step body (Call_subscribe k) s = subscribe k s"
| "step body (Call_unsubscribe k) s = unsubscribe k s"
| "step body (Mousemove e) s = handleMouseMove body e s"


text \<open>The listener calls, and the snapshot reads, made since the log had length \<open>n\<close>.\<close>

definition invoked_since :: "nat \<Rightarrow> 'a position_state_scheme \<Rightarrow> lid list" where
  "invoked_since n s = drop n (invoked s)"

definition seen_since :: "nat \<Rightarrow> 'a position_state_scheme \<Rightarrow> (lid \<times> ref) list" where
  "seen_since n s = drop n (seen s)"

subsection \<open>The listener array as a mutable object\<close>

text \<open>
  In the source \<^verbatim>\<open>listeners\<close> holds a reference to an array object. \<^verbatim>\<open>push\<close> changes
  that object in place; \<^verbatim>\<open>filter\<close> builds a new array and the assignment rebinds the
  variable; \<^verbatim>\<open>forEach\<close> keeps walking the object it was called on. Here \<open>arrays\<close> is
  the heap of array objects and \<open>listeners_ref\<close> the variable.
\<close>

record array_store = position_state +
  arrays :: "lid list list"
  listeners_ref :: nat

definition createMousePositionStore_arr :: "bool \<Rightarrow> array_store" where
  "createMousePositionStore_arr window_defined =
     \<lparr>currentPosition = 0, objects = [\<lparr>pos_x = 0, pos_y = 0\<rparr>],
      registered = window_defined, invoked = [], seen = [],
      arrays = [[]], listeners_ref = 0\<rparr>"

text \<open>The list model's state that an array state stands for.\<close>

definition view :: "array_store \<Rightarrow> store" where
  "view c =
     \<lparr>currentPosition = currentPosition c, objects = objects c, registered = registered c,
      invoked = invoked c, seen = seen c, listeners = arrays c ! listeners_ref c\<rparr>"

definition subscribe_arr :: "lid \<Rightarrow> array_store \<Rightarrow> array_store" where
  "subscribe_arr listener c =
     c\<lparr>arrays := (arrays c)[listeners_ref c := arrays c ! listeners_ref c @ [listener]]\<rparr>"

definition unsubscribe_arr :: "lid \<Rightarrow> array_store \<Rightarrow> array_store" where
  "unsubscribe_arr listener c =
     c\<lparr>arrays := arrays c @ [filter (\<lambda>l. l \<noteq> listener) (arrays c ! listeners_ref c)],
       listeners_ref := length (arrays c)\<rparr>"

fun perform_arr :: "lid \<Rightarrow> call \<Rightarrow> array_store \<Rightarrow> array_store" where
  "perform_arr l (Subscribe k) c = subscribe_arr k c"
| "perform_arr l (Unsubscribe k) c = unsubscribe_arr k c"
| "perform_arr l GetSnapshot c = read_snapshot l c"

fun perform_all_arr :: "lid \<Rightarrow> call list \<Rightarrow> array_store \<Rightarrow> array_store" where
  "perform_all_arr l [] c = c"
| "perform_all_arr l (x # xs) c = perform_all_arr l xs (perform_arr l x c)"

definition invoke_arr :: "(lid \<Rightarrow> store \<Rightarrow> call list) \<Rightarrow> lid \<Rightarrow> array_store \<Rightarrow> array_store" where
  "invoke_arr body l c = perform_all_arr l (body l (view c)) (enter l c)"

text \<open>
  \<^verbatim>\<open>Array.prototype.forEach\<close> on the array object at address \<open>a\<close>: the length \<open>len\<close> is
  read once, before the first call; then for each index \<open>k\<close> below it, in order, the
  element is read from the object as it is at that moment and the callback is called
  with it, if the object has that index.
\<close>

function forEach_arr ::
  "(lid \<Rightarrow> store \<Rightarrow> call list) \<Rightarrow> nat \<Rightarrow> nat \<Rightarrow> nat \<Rightarrow> array_store \<Rightarrow> array_store" where
  "forEach_arr body a len k c =
     (if k < len then
        forEach_arr body a len (Suc k)
          (if k < length (arrays c ! a) then invoke_arr body (arrays c ! a ! k) c else c)
      else c)"
  by pat_completeness auto
termination
  by (relation "measure (\<lambda>(body, a, len, k, c). len - k)") auto

definition emitChange_arr :: "(lid \<Rightarrow> store \<Rightarrow> call list) \<Rightarrow> array_store \<Rightarrow> array_store" where
  "emitChange_arr body c =
     forEach_arr body (listeners_ref c) (length (arrays c ! listeners_ref c)) 0 c"

definition handleMouseMove_arr ::
  "(lid \<Rightarrow> store \<Rightarrow> call list) \<Rightarrow> MouseEvent \<Rightarrow> array_store \<Rightarrow> array_store" where
  "handleMouseMove_arr body event c = emitChange_arr body (set_position event c)"

text \<open>The variable refers to an allocated array.\<close>

definition array_store_ok :: "array_store \<Rightarrow> bool" where
  "array_store_ok c = (listeners_ref c < length (arrays c))"

text \<open>
  \<open>grown c c'\<close>: every array object of \<open>c\<close> is still there in \<open>c'\<close> and still begins
  with the elements it had.
\<close>

definition grown :: "array_store \<Rightarrow> array_store \<Rightarrow> bool" where
  "grown c c' =
     (length (arrays c) \<le> length (arrays c')
      \<and> (\<forall>a \<in> set [0..<length (arrays c)].
            take (length (arrays c ! a)) (arrays c' ! a) = arrays c ! a))"

subsection \<open>Listener bodies and states used in the examples\<close>

text \<open>Listeners that do nothing with the store.\<close>

definition quiet :: "lid \<Rightarrow> store \<Rightarrow> call list" where
  "quiet l s = []"

text \<open>Listeners that read the snapshot, as the rendering layer's callback does.\<close>

definition reader :: "lid \<Rightarrow> store \<Rightarrow> call list" where
  "reader l s = [GetSnapshot]"

text \<open>Listener 1 calls the unsubscribe function of listener 2; the others do nothing.\<close>

definition remover :: "lid \<Rightarrow> store \<Rightarrow> call list" where
  "remover l s = (if l = 1 then [Unsubscribe 2] else [])"

definition two_listeners :: store where
  "two_listeners = subscribe 2 (subscribe 1 (createMousePositionStore True))"

definition two_listeners_arr :: array_store where
  "two_listeners_arr = subscribe_arr 2 (subscribe_arr 1 (createMousePositionStore_arr True))"


definition twice_subscribed :: store where
  "twice_subscribed = subscribe 7 (subscribe 7 (createMousePositionStore True))"

section \<open>The viewport size hooks (useWindowSize)\<close>

record WindowSize =
  width :: int
  height :: int

text \<open>The part of the browser's \<^verbatim>\<open>window\<close> object the hooks read.\<close>

record window =
  innerWidth :: int
  innerHeight :: int

text \<open>
  The variant built on \<^verbatim>\<open>useSyncExternalStore\<close>. Each call of \<^verbatim>\<open>getSnapshot\<close> evaluates
  an object literal, which allocates: the function takes the heap of size objects and
  returns the new object's reference with the extended heap.
\<close>

definition getSnapshot_windowSize :: "window \<Rightarrow> WindowSize list \<Rightarrow> ref \<times> WindowSize list" where
  "getSnapshot_windowSize w heap =
     (length heap, heap @ [\<lparr>width = innerWidth w, height = innerHeight w\<rparr>])"

definition getServerSnapshot_windowSize :: "WindowSize list \<Rightarrow> ref \<times> WindowSize list" where
  "getServerSnapshot_windowSize heap = (length heap, heap @ [\<lparr>width = 0, height = 0\<rparr>])"

text \<open>
  Where the hook runs. \<^verbatim>\<open>useSyncExternalStore(subscribe, getSnapshot, getServerSnapshot)\<close>
  returns the result of \<^verbatim>\<open>getServerSnapshot\<close> when rendering on the server and of
  \<^verbatim>\<open>getSnapshot\<close> in the browser.
\<close>

datatype environment = Server | Client window

definition useWindowSize_sync :: "environment \<Rightarrow> WindowSize list \<Rightarrow> ref \<times> WindowSize list" where
  "useWindowSize_sync env heap =
     (case env of
        Server \<Rightarrow> getServerSnapshot_windowSize heap
      | Client w \<Rightarrow> getSnapshot_windowSize w heap)"

text \<open>A resize: the browser sets the two properties, then fires the event.\<close>

definition resize :: "int \<Rightarrow> int \<Rightarrow> window \<Rightarrow> window" where
  "resize a b w = w\<lparr>innerWidth := a, innerHeight := b\<rparr>"

text \<open>
  The variant built on \<^verbatim>\<open>useState\<close> and \<^verbatim>\<open>useEffect\<close>: the state cell and whether the
  effect's handler is attached to \<^verbatim>\<open>window\<close>. The hook returns \<open>windowSize\<close>.
\<close>

record hook_state =
  windowSize :: WindowSize
  listening :: bool

text \<open>\<^verbatim>\<open>useState<WindowSize>({ width: 0, height: 0 })\<close> at the first render.\<close>

definition useWindowSize_initial :: hook_state where
  "useWindowSize_initial = \<lparr>windowSize = \<lparr>width = 0, height = 0\<rparr>, listening = False\<rparr>"

definition handleResize :: "window \<Rightarrow> hook_state \<Rightarrow> hook_state" where
  "handleResize w h = h\<lparr>windowSize := \<lparr>width = innerWidth w, height = innerHeight w\<rparr>\<rparr>"

text \<open>
  The effect, run once after the first render:
  \<^verbatim>\<open>handleResize(); window.addEventListener("resize", handleResize);\<close>
\<close>

definition useWindowSize_mount :: "window \<Rightarrow> hook_state \<Rightarrow> hook_state" where
  "useWindowSize_mount w h = (handleResize w h)\<lparr>listening := True\<rparr>"

text \<open>The effect's cleanup: \<^verbatim>\<open>window.removeEventListener("resize", handleResize)\<close>.\<close>

definition useWindowSize_unmount :: "hook_state \<Rightarrow> hook_state" where
  "useWindowSize_unmount h = h\<lparr>listening := False\<rparr>"

text \<open>The browser fires a resize event; \<open>w\<close> is the window after the resize.\<close>

definition window_resize :: "window \<Rightarrow> hook_state \<Rightarrow> hook_state" where
  "window_resize w h = (if listening h then handleResize w h else h)"

text \<open>A browser window used in the examples.\<close>

definition desktop :: window where
  "desktop = \<lparr>innerWidth = 1024, innerHeight = 768\<rparr>"

section \<open>The storage-backed hooks (useLocalStorageState)\<close>

text \<open>
  \<^verbatim>\<open>defaultValue: T | (() => T)\<close>; the code tells the two apart with
  \<^verbatim>\<open>typeof defaultValue === "function"\<close> and calls a function.
\<close>

datatype 'a default_value = Literal 'a | Producer "unit \<Rightarrow> 'a"

fun resolve :: "'a default_value \<Rightarrow> 'a" where
  "resolve (Producer f) = f ()"
| "resolve (Literal v) = v"

text \<open>\<^verbatim>\<open>newValue: T | ((prev: T) => T)\<close>, told apart with \<^verbatim>\<open>instanceof Function\<close>.\<close>

datatype 'a new_value = Updater "'a \<Rightarrow> 'a" | Value 'a

text \<open>
  What the hooks touch in the browser: the entries of \<^verbatim>\<open>localStorage\<close>, the calls of
  \<^verbatim>\<open>console.error\<close> (message and error object), and the number of \<^verbatim>\<open>"storage"\<close>
  events dispatched on \<^verbatim>\<open>window\<close>. \<open>'e\<close> is the type of what \<^verbatim>\<open>deserialize\<close> throws.
\<close>

record 'e browser =
  localStorage :: "string \<rightharpoonup> string"
  console_error :: "(string \<times> 'e) list"
  storage_events :: nat

definition deserializing_message :: "string \<Rightarrow> string" where
  "deserializing_message key =
     ''Error deserializing value for key '' @ [CHR 0x22] @ key @ [CHR 0x22] @ '':''"

text \<open>
  The variant built on \<^verbatim>\<open>useSyncExternalStore\<close>. \<^verbatim>\<open>getStorageValue\<close> is its snapshot
  function. \<^verbatim>\<open>if (storedValue)\<close> is false for \<^verbatim>\<open>null\<close> (no entry) and for the empty
  string. \<^verbatim>\<open>deserialize\<close> either returns a value or throws; the \<^verbatim>\<open>catch\<close> block logs
  and falls through to the default.
\<close>

definition getStorageValue ::
  "string \<Rightarrow> 'a default_value \<Rightarrow> (string \<Rightarrow> 'e + 'a) \<Rightarrow> 'e browser \<Rightarrow> 'a \<times> 'e browser" where
  "getStorageValue key defaultValue deserialize b =
     (case localStorage b key of
        None \<Rightarrow> (resolve defaultValue, b)
      | Some storedValue \<Rightarrow>
          if storedValue = [] then (resolve defaultValue, b)
          else (case deserialize storedValue of
                  Inr v \<Rightarrow> (v, b)
                | Inl error \<Rightarrow>
                    (resolve defaultValue,
                     b\<lparr>console_error := console_error b @ [(deserializing_message key, error)]\<rparr>)))"

text \<open>
  \<^verbatim>\<open>setValue\<close>; \<open>val\<close> is the value the hook returned at the render that created the
  function. It stores the serialized value and dispatches a \<^verbatim>\<open>"storage"\<close> event.
\<close>

definition setValue ::
  "string \<Rightarrow> ('a \<Rightarrow> string) \<Rightarrow> 'a \<Rightarrow> 'a new_value \<Rightarrow> 'e browser \<Rightarrow> 'e browser" where
  "setValue key serialize val newValue b =
     (let valueToStore = (case newValue of Updater f \<Rightarrow> f val | Value v \<Rightarrow> v)
      in b\<lparr>localStorage := (localStorage b)(key \<mapsto> serialize valueToStore),
           storage_events := Suc (storage_events b)\<rparr>)"

text \<open>
  The variant built on \<^verbatim>\<open>useState\<close>: the initializer passed to \<^verbatim>\<open>useState\<close>. Its
  \<^verbatim>\<open>catch\<close> block is \<^verbatim>\<open>window.localStorage.removeItem(key)\<close>.
\<close>

definition initial_state ::
  "string \<Rightarrow> 'a default_value \<Rightarrow> (string \<Rightarrow> 'e + 'a) \<Rightarrow> 'e browser \<Rightarrow> 'a \<times> 'e browser" where
  "initial_state key defaultValue deserialize b =
     (case localStorage b key of
        None \<Rightarrow> (resolve defaultValue, b)
      | Some valueInLocalStorage \<Rightarrow>
          if valueInLocalStorage = [] then (resolve defaultValue, b)
          else (case deserialize valueInLocalStorage of
                  Inr v \<Rightarrow> (v, b)
                | Inl error \<Rightarrow>
                    (resolve defaultValue, b\<lparr>localStorage := (localStorage b)(key := None)\<rparr>)))"

subsection \<open>The default serializer on strings\<close>

text \<open>
  The defaults are the host's \<^verbatim>\<open>JSON.stringify\<close> and \<^verbatim>\<open>JSON.parse\<close>. The examples need
  them on string values only: a string is written between double quotes, with a
  backslash before each double quote and backslash in it; reading accepts exactly such
  a text and raises a \<^verbatim>\<open>SyntaxError\<close> otherwise. Control characters, the other escape
  sequences and the other kinds of JSON text are left out.
\<close>

datatype json_error = SyntaxError

definition json_escape :: "char \<Rightarrow> string" where
  "json_escape c = (if c = CHR 0x22 \<or> c = CHR 0x5C then [CHR 0x5C, c] else [c])"

definition JSON_stringify :: "string \<Rightarrow> string" where
  "JSON_stringify v = [CHR 0x22] @ concat (map json_escape v) @ [CHR 0x22]"

fun json_chars :: "string \<Rightarrow> string option" where
  "json_chars [] = None"
| "json_chars (c # cs) =
     (if c = CHR 0x22 then (if cs = [] then Some [] else None)
      else if c = CHR 0x5C then
        (case cs of
           [] \<Rightarrow> None
         | d # ds \<Rightarrow>
             if d = CHR 0x22 \<or> d = CHR 0x5C then map_option (Cons d) (json_chars ds) else None)
      else map_option (Cons c) (json_chars cs))"

definition JSON_parse :: "string \<Rightarrow> json_error + string" where
  "JSON_parse raw =
     (case raw of
        [] \<Rightarrow> Inl SyntaxError
      | c # cs \<Rightarrow>
          if c = CHR 0x22 then (case json_chars cs of None \<Rightarrow> Inl SyntaxError | Some v \<Rightarrow> Inr v)
          else Inl SyntaxError)"

text \<open>Browsers used in the examples: nothing stored, a corrupt entry, an empty entry.\<close>

definition empty_browser :: "json_error browser" where
  "empty_browser = \<lparr>localStorage = Map.empty, console_error = [], storage_events = 0\<rparr>"

definition corrupt_browser :: "json_error browser" where
  "corrupt_browser = empty_browser\<lparr>localStorage := [''theme'' \<mapsto> ''{bad'']\<rparr>"

definition blank_browser :: "json_error browser" where
  "blank_browser = empty_browser\<lparr>localStorage := [''theme'' \<mapsto> []]\<rparr>"

section \<open>Basic facts about the store\<close>

lemma subscribe_fields [simp]:
  "listeners (subscribe l s) = listeners s @ [l]"
  "currentPosition (subscribe l s) = currentPosition s"
  "objects (subscribe l s) = objects s"
  "invoked (subscribe l s) = invoked s"
  "seen (subscribe l s) = seen s"
  "registered (subscribe l s) = registered s"
  by (simp_all add: subscribe_def)

lemma unsubscribe_fields [simp]:
  "listeners (unsubscribe l s) = filter (\<lambda>k. k \<noteq> l) (listeners s)"
  "currentPosition (unsubscribe l s) = currentPosition s"
  "objects (unsubscribe l s) = objects s"
  "invoked (unsubscribe l s) = invoked s"
  "seen (unsubscribe l s) = seen s"
  "registered (unsubscribe l s) = registered s"
  by (simp_all add: unsubscribe_def)

lemma perform_fields [simp]:
  "currentPosition (perform l c s) = currentPosition s"
  "objects (perform l c s) = objects s"
  "invoked (perform l c s) = invoked s"
  "registered (perform l c s) = registered s"
  by (cases c; simp add: read_snapshot_def)+

lemma perform_all_fields [simp]:
  "currentPosition (perform_all l cs s) = currentPosition s"
  "objects (perform_all l cs s) = objects s"
  "invoked (perform_all l cs s) = invoked s"
  "registered (perform_all l cs s) = registered s"
  by (induction cs arbitrary: s; simp)+

lemma invoke_fields [simp]:
  "currentPosition (invoke body l s) = currentPosition s"
  "objects (invoke body l s) = objects s"
  "invoked (invoke body l s) = invoked s @ [l]"
  "registered (invoke body l s) = registered s"
  by (simp_all add: invoke_def enter_def)

lemma forEach_invoke_fields [simp]:
  "currentPosition (forEach (invoke body) ls s) = currentPosition s"
  "objects (forEach (invoke body) ls s) = objects s"
  "invoked (forEach (invoke body) ls s) = invoked s @ ls"
  "registered (forEach (invoke body) ls s) = registered s"
  by (induction ls arbitrary: s; simp)+

lemma emitChange_fields [simp]:
  "currentPosition (emitChange body s) = currentPosition s"
  "objects (emitChange body s) = objects s"
  "invoked (emitChange body s) = invoked s @ listeners s"
  "registered (emitChange body s) = registered s"
  by (simp_all add: emitChange_def)

lemma set_position_fields [simp]:
  "currentPosition (set_position e s) = length (objects s)"
  "objects (set_position e s) = objects s @ [\<lparr>pos_x = clientX e, pos_y = clientY e\<rparr>]"
  "invoked (set_position e s) = invoked s"
  "seen (set_position e s) = seen s"
  "registered (set_position e s) = registered s"
  by (simp_all add: set_position_def)

lemma set_position_listeners [simp]:
  "listeners (set_position e s) = listeners s"
  by (simp add: set_position_def)

lemma handleMouseMove_fields [simp]:
  "currentPosition (handleMouseMove body e s) = length (objects s)"
  "objects (handleMouseMove body e s) = objects s @ [\<lparr>pos_x = clientX e, pos_y = clientY e\<rparr>]"
  "invoked (handleMouseMove body e s) = invoked s @ listeners s"
  "registered (handleMouseMove body e s) = registered s"
  by (simp_all add: handleMouseMove_def)













text \<open>On the server no event reaches the store: the snapshot stays the initial object.\<close>

lemma server_snapshot_initial:
  "objects (window_mousemove body e (createMousePositionStore False))
     ! getSnapshot (window_mousemove body e (createMousePositionStore False))
   = \<lparr>pos_x = 0, pos_y = 0\<rparr>"
  by (simp add: window_mousemove_def createMousePositionStore_def getSnapshot_def)

text \<open>
  The mouse store's snapshot is the cached reference: reading it changes nothing, and
  neither subscribing, unsubscribing nor a listener call rebinds the variable.
\<close>

lemma getSnapshot_stable:
  "getSnapshot (subscribe l s) = getSnapshot s"
  "getSnapshot (unsubscribe l s) = getSnapshot s"
  "getSnapshot (invoke body l s) = getSnapshot s"
  "getSnapshot (emitChange body s) = getSnapshot s"
  by (simp_all add: getSnapshot_def)

subsection \<open>What listeners read during a notification cycle\<close>

lemma perform_seen:
  "\<exists>zs. seen (perform l c s) = seen s @ zs \<and> (\<forall>p\<in>set zs. p = (l, currentPosition s))"
  by (cases c) (simp_all add: getSnapshot_def read_snapshot_def)

lemma perform_all_seen:
  "\<exists>zs. seen (perform_all l cs s) = seen s @ zs \<and> (\<forall>p\<in>set zs. p = (l, currentPosition s))"
proof (induction cs arbitrary: s)
  case Nil
  then show ?case by simp
next
  case (Cons c cs)
  obtain ys where ys: "seen (perform l c s) = seen s @ ys" "\<forall>p\<in>set ys. p = (l, currentPosition s)"
    using perform_seen by blast
  obtain zs where zs: "seen (perform_all l cs (perform l c s)) = seen (perform l c s) @ zs"
      "\<forall>p\<in>set zs. p = (l, currentPosition (perform l c s))"
    using Cons.IH by blast
  have "seen (perform_all l (c # cs) s) = seen s @ (ys @ zs)"
    using ys zs by simp
  moreover have "\<forall>p\<in>set (ys @ zs). p = (l, currentPosition s)"
    using ys zs by auto
  ultimately show ?case by blast
qed

lemma invoke_seen:
  "\<exists>zs. seen (invoke body l s) = seen s @ zs \<and> (\<forall>p\<in>set zs. p = (l, currentPosition s))"
  using perform_all_seen [of l "body l s" "enter l s"]
  by (simp add: invoke_def enter_def)

lemma forEach_seen:
  "\<exists>zs. seen (forEach (invoke body) ls s) = seen s @ zs
     \<and> (\<forall>p\<in>set zs. fst p \<in> set ls \<and> snd p = currentPosition s)"
proof (induction ls arbitrary: s)
  case Nil
  then show ?case by simp
next
  case (Cons l ls)
  obtain ys where ys: "seen (invoke body l s) = seen s @ ys" "\<forall>p\<in>set ys. p = (l, currentPosition s)"
    using invoke_seen by blast
  obtain zs where zs: "seen (forEach (invoke body) ls (invoke body l s)) = seen (invoke body l s) @ zs"
      "\<forall>p\<in>set zs. fst p \<in> set ls \<and> snd p = currentPosition (invoke body l s)"
    using Cons.IH by blast
  have "seen (forEach (invoke body) (l # ls) s) = seen s @ (ys @ zs)"
    using ys zs by simp
  moreover have "\<forall>p\<in>set (ys @ zs). fst p \<in> set (l # ls) \<and> snd p = currentPosition s"
    using ys zs by auto
  ultimately show ?case by blast
qed

lemma emitChange_seen:
  "p \<in> set (seen_since (length (seen s)) (emitChange body s))
     \<Longrightarrow> fst p \<in> set (listeners s) \<and> snd p = currentPosition s"
  using forEach_seen [of body "listeners s" s]
  by (auto simp: emitChange_def seen_since_def)

lemma handleMouseMove_seen:
  assumes "p \<in> set (seen_since (length (seen s)) (handleMouseMove body e s))"
  shows "fst p \<in> set (listeners s) \<and> snd p = length (objects s)"
  using emitChange_seen [of p "set_position e s" body] assms
  by (simp add: handleMouseMove_def)

subsection \<open>Sequences of events\<close>

lemma mousemoves_objects:
  "objects (mousemoves body evs s)
     = objects s @ map (\<lambda>e. \<lparr>pos_x = clientX e, pos_y = clientY e\<rparr>) evs"
  by (induction evs arbitrary: s) simp_all

lemma mousemoves_currentPosition:
  "evs \<noteq> [] \<Longrightarrow> currentPosition (mousemoves body evs s) = length (objects s) + length evs - 1"
proof (induction evs arbitrary: s)
  case Nil
  then show ?case by simp
next
  case (Cons e es)
  show ?case
  proof (cases "es = []")
    case True
    then show ?thesis by simp
  next
    case False
    then show ?thesis using Cons.IH [of "handleMouseMove body e s"] by simp
  qed
qed

lemma mousemoves_last:
  assumes "evs \<noteq> []"
  shows "objects (mousemoves body evs s) ! getSnapshot (mousemoves body evs s)
           = \<lparr>pos_x = clientX (last evs), pos_y = clientY (last evs)\<rparr>"
proof -
  have "length (objects s) + length evs - 1 = length (objects s) + (length evs - 1)"
    using assms by (cases evs) simp_all
  moreover have "map (\<lambda>e. \<lparr>pos_x = clientX e, pos_y = clientY e\<rparr>) evs ! (length evs - 1)
      = \<lparr>pos_x = clientX (last evs), pos_y = clientY (last evs)\<rparr>"
    using assms by (simp add: last_conv_nth)
  ultimately show ?thesis
    using assms by (simp add: getSnapshot_def mousemoves_objects mousemoves_currentPosition)
qed

lemma mousemoves_invoked:
  "invoked (mousemoves body evs s) = invoked s @ concat (map listeners (cycle_starts body evs s))"
  by (induction evs arbitrary: s) simp_all

lemma length_cycle_starts [simp]: "length (cycle_starts body evs s) = length evs"
  by (induction evs arbitrary: s) simp_all

lemma count_list_concat:
  "count_list (concat xss) l = sum_list (map (\<lambda>xs. count_list xs l) xss)"
  by (induction xss) simp_all

lemma sum_list_at_least_length:
  "(\<forall>t\<in>set ts. 1 \<le> f t) \<Longrightarrow> length ts \<le> sum_list (map f ts)" for f :: "'a \<Rightarrow> nat"
  by (induction ts) auto

lemma sum_list_all_one:
  "(\<forall>t\<in>set ts. f t = 1) \<Longrightarrow> sum_list (map f ts) = length ts" for f :: "'a \<Rightarrow> nat"
  by (induction ts) auto

lemma mousemoves_count:
  "count_list (invoked_since (length (invoked s)) (mousemoves body evs s)) l
     = sum_list (map (\<lambda>t. count_list (listeners t) l) (cycle_starts body evs s))"
  by (simp add: invoked_since_def mousemoves_invoked count_list_concat comp_def)

subsection \<open>The array model is matched by the list model\<close>

declare forEach_arr.simps [simp del]

lemma take_whole: "take (length ys) xs = ys \<Longrightarrow> length ys \<le> length xs"
proof -
  assume h: "take (length ys) xs = ys"
  have "length (take (length ys) xs) = min (length xs) (length ys)" by simp
  then have "min (length xs) (length ys) = length ys" using h by simp
  then show ?thesis by simp
qed

lemma grown_refl: "grown c c"
  by (simp add: grown_def)

lemma grown_trans:
  assumes "grown c c'" and "grown c' c''"
  shows "grown c c''"
proof -
  have len: "length (arrays c) \<le> length (arrays c')" "length (arrays c') \<le> length (arrays c'')"
    using assms by (simp_all add: grown_def)
  have keep: "take (length (arrays c ! a)) (arrays c'' ! a) = arrays c ! a"
    if a: "a < length (arrays c)" for a
  proof -
    have 1: "take (length (arrays c ! a)) (arrays c' ! a) = arrays c ! a"
      using assms(1) a by (simp add: grown_def)
    have 2: "take (length (arrays c' ! a)) (arrays c'' ! a) = arrays c' ! a"
      using assms(2) a len by (simp add: grown_def)
    have le: "length (arrays c ! a) \<le> length (arrays c' ! a)"
      using 1 by (rule take_whole)
    have "take (length (arrays c ! a)) (arrays c'' ! a)
        = take (length (arrays c ! a)) (take (length (arrays c' ! a)) (arrays c'' ! a))"
      using le by (simp add: min_def)
    then show ?thesis using 1 2 by simp
  qed
  show ?thesis
    using len keep by (simp add: grown_def)
qed

lemma subscribe_arr_view:
  assumes "array_store_ok c"
  shows "view (subscribe_arr l c) = subscribe l (view c)"
    and "array_store_ok (subscribe_arr l c)"
    and "grown c (subscribe_arr l c)"
  using assms
  by (auto simp: view_def subscribe_arr_def subscribe_def array_store_ok_def grown_def
      nth_list_update)

lemma unsubscribe_arr_view:
  assumes "array_store_ok c"
  shows "view (unsubscribe_arr l c) = unsubscribe l (view c)"
    and "array_store_ok (unsubscribe_arr l c)"
    and "grown c (unsubscribe_arr l c)"
  using assms
  by (auto simp: view_def unsubscribe_arr_def unsubscribe_def array_store_ok_def grown_def
      nth_append)

lemma read_snapshot_view:
  assumes "array_store_ok c"
  shows "view (read_snapshot l c) = read_snapshot l (view c)"
    and "array_store_ok (read_snapshot l c)"
    and "grown c (read_snapshot l c)"
  using assms
  by (auto simp: view_def array_store_ok_def grown_def read_snapshot_def getSnapshot_def)

lemma enter_view:
  assumes "array_store_ok c"
  shows "view (enter l c) = enter l (view c)"
    and "array_store_ok (enter l c)"
    and "grown c (enter l c)"
  using assms
  by (auto simp: view_def array_store_ok_def grown_def enter_def)

lemma set_position_view:
  assumes "array_store_ok c"
  shows "view (set_position e c) = set_position e (view c)"
    and "array_store_ok (set_position e c)"
  using assms
  by (auto simp: view_def array_store_ok_def set_position_def)

lemma perform_arr_view:
  assumes "array_store_ok c"
  shows "view (perform_arr l x c) = perform l x (view c)
     \<and> array_store_ok (perform_arr l x c) \<and> grown c (perform_arr l x c)"
proof (cases x)
  case (Subscribe k)
  then show ?thesis using subscribe_arr_view [OF assms] by simp
next
  case (Unsubscribe k)
  then show ?thesis using unsubscribe_arr_view [OF assms] by simp
next
  case GetSnapshot
  then show ?thesis using read_snapshot_view [OF assms, of l] by simp
qed

lemma perform_all_arr_view:
  "array_store_ok c \<Longrightarrow>
   view (perform_all_arr l xs c) = perform_all l xs (view c)
     \<and> array_store_ok (perform_all_arr l xs c) \<and> grown c (perform_all_arr l xs c)"
proof (induction xs arbitrary: c)
  case Nil
  then show ?case by (simp add: grown_refl)
next
  case (Cons x xs)
  have step: "view (perform_arr l x c) = perform l x (view c)"
    "array_store_ok (perform_arr l x c)" "grown c (perform_arr l x c)"
    using perform_arr_view [OF Cons.prems] by simp_all
  show ?case
    using Cons.IH [OF step(2)] step(1,3) by (auto intro: grown_trans)
qed

lemma invoke_arr_view:
  assumes "array_store_ok c"
  shows "view (invoke_arr body l c) = invoke body l (view c)
     \<and> array_store_ok (invoke_arr body l c) \<and> grown c (invoke_arr body l c)"
proof -
  have ok: "array_store_ok (enter l c)"
    using assms by (rule enter_view(2))
  have v: "view (enter l c) = enter l (view c)"
    using assms by (rule enter_view(1))
  have g: "grown c (enter l c)"
    using assms by (rule enter_view(3))
  show ?thesis
    using perform_all_arr_view [where c = "enter l c" and l = l and xs = "body l (view c)", OF ok] v g
    by (auto simp: invoke_arr_def invoke_def intro: grown_trans)
qed

lemma forEach_arr_view:
  "array_store_ok c \<Longrightarrow> a < length (arrays c) \<Longrightarrow> take len (arrays c ! a) = ls
     \<Longrightarrow> length ls = len \<Longrightarrow> k \<le> len
     \<Longrightarrow> view (forEach_arr body a len k c) = forEach (invoke body) (drop k ls) (view c)
       \<and> array_store_ok (forEach_arr body a len k c)"
proof (induction body a len k c rule: forEach_arr.induct)
  case (1 body a len k c)
  show ?case
  proof (cases "k < len")
    case False
    then have "drop k ls = []" using "1.prems"(4) by simp
    then show ?thesis
      using False "1.prems"(1) by (simp add: forEach_arr.simps [of body a len k c])
  next
    case True
    have len_le: "len \<le> length (arrays c ! a)"
      using take_whole [of ls "arrays c ! a"] "1.prems"(3,4) by simp
    then have inrange: "k < length (arrays c ! a)" using True by simp
    have elem: "arrays c ! a ! k = ls ! k"
      using "1.prems"(3) True by (metis nth_take)
    let ?c' = "invoke_arr body (arrays c ! a ! k) c"
    have sim: "view ?c' = invoke body (ls ! k) (view c)" "array_store_ok ?c'" "grown c ?c'"
      using invoke_arr_view [OF "1.prems"(1), of body "arrays c ! a ! k"] elem by simp_all
    have a': "a < length (arrays ?c')"
      using sim(3) "1.prems"(2) by (simp add: grown_def)
    have keep: "take (length (arrays c ! a)) (arrays ?c' ! a) = arrays c ! a"
      using sim(3) "1.prems"(2) by (simp add: grown_def)
    have "take len (arrays ?c' ! a) = take len (take (length (arrays c ! a)) (arrays ?c' ! a))"
      using len_le by (simp add: min_def)
    then have pre: "take len (arrays ?c' ! a) = ls"
      using keep "1.prems"(3) by simp
    have ih: "view (forEach_arr body a len (Suc k) ?c')
          = forEach (invoke body) (drop (Suc k) ls) (view ?c')
        \<and> array_store_ok (forEach_arr body a len (Suc k) ?c')"
      using "1.IH" True inrange sim(2) a' pre "1.prems"(4) by simp
    have unfold: "forEach_arr body a len k c = forEach_arr body a len (Suc k) ?c'"
      using True inrange by (simp add: forEach_arr.simps [of body a len k c])
    have "drop k ls = ls ! k # drop (Suc k) ls"
      using True "1.prems"(4) by (simp add: Cons_nth_drop_Suc)
    then show ?thesis
      using unfold ih sim(1) by simp
  qed
qed

text \<open>
  One notification cycle on the array object does what \<open>emitChange\<close> does on the list
  the array held when the cycle began.
\<close>

lemma emitChange_arr_view:
  assumes "array_store_ok c"
  shows "view (emitChange_arr body c) = emitChange body (view c)
     \<and> array_store_ok (emitChange_arr body c)"
proof -
  have a: "listeners_ref c < length (arrays c)"
    using assms by (simp add: array_store_ok_def)
  have "view (forEach_arr body (listeners_ref c) (length (arrays c ! listeners_ref c)) 0 c)
      = forEach (invoke body) (drop 0 (arrays c ! listeners_ref c)) (view c)
     \<and> array_store_ok (forEach_arr body (listeners_ref c) (length (arrays c ! listeners_ref c)) 0 c)"
    by (rule forEach_arr_view [OF assms a]) simp_all
  then show ?thesis
    by (simp add: emitChange_arr_def emitChange_def view_def)
qed

lemma handleMouseMove_arr_view:
  assumes "array_store_ok c"
  shows "view (handleMouseMove_arr body e c) = handleMouseMove body e (view c)
     \<and> array_store_ok (handleMouseMove_arr body e c)"
proof -
  have ok: "array_store_ok (set_position e c)"
    using assms by (rule set_position_view(2))
  have v: "view (set_position e c) = set_position e (view c)"
    using assms by (rule set_position_view(1))
  show ?thesis
    using emitChange_arr_view [where c = "set_position e c" and body = body, OF ok] v
    by (simp add: handleMouseMove_arr_def handleMouseMove_def)
qed

lemma view_fields [simp]:
  "invoked (view c) = invoked c"
  "seen (view c) = seen c"
  "currentPosition (view c) = currentPosition c"
  "objects (view c) = objects c"
  "listeners (view c) = arrays c ! listeners_ref c"
  by (simp_all add: view_def)

lemma created_arr_ok:
  "array_store_ok (createMousePositionStore_arr w)"
  "view (createMousePositionStore_arr w) = createMousePositionStore w"
  by (simp_all add: array_store_ok_def createMousePositionStore_arr_def view_def
      createMousePositionStore_def)

section \<open>Snapshots between change events\<close>

lemma getSnapshot_windowSize_value:
  "snd (getSnapshot_windowSize w heap) ! fst (getSnapshot_windowSize w heap)
     = \<lparr>width = innerWidth w, height = innerHeight w\<rparr>"
  by (simp add: getSnapshot_windowSize_def)

lemma getSnapshot_windowSize_fresh:
  "fst (getSnapshot_windowSize w (snd (getSnapshot_windowSize w heap)))
     \<noteq> fst (getSnapshot_windowSize w heap)"
  by (simp add: getSnapshot_windowSize_def)

text \<open>
  Claim C1. Two calls of \<^verbatim>\<open>getSnapshot\<close> with no change event between them should
  return values equal by reference. The mouse store does so (\<open>getSnapshot_stable\<close>).
  The \<^verbatim>\<open>getSnapshot\<close> of \<^verbatim>\<open>useWindowSize\<close> does not: called twice on an unchanged
  1024 by 768 window, starting from an empty heap, it returns the references 0 and 1,
  two different objects with the same contents.
\<close>

theorem windowSize_snapshot_not_cached:
  "fst (getSnapshot_windowSize desktop []) = 0
   \<and> fst (getSnapshot_windowSize desktop (snd (getSnapshot_windowSize desktop []))) = 1
   \<and> fst (getSnapshot_windowSize desktop [])
       \<noteq> fst (getSnapshot_windowSize desktop (snd (getSnapshot_windowSize desktop [])))
   \<and> snd (getSnapshot_windowSize desktop (snd (getSnapshot_windowSize desktop []))) ! 0
       = \<lparr>width = 1024, height = 768\<rparr>
   \<and> snd (getSnapshot_windowSize desktop (snd (getSnapshot_windowSize desktop []))) ! 1
       = \<lparr>width = 1024, height = 768\<rparr>"
  by (simp add: getSnapshot_windowSize_def desktop_def)

section \<open>Unsubscribing during a notification cycle\<close>

text \<open>
  Claim C2, as the code has it. A notification cycle calls exactly the listeners the
  array held when the cycle began, each once per occurrence and in order, whatever the
  listeners do to the array meanwhile: this holds on the array object
  (first two parts) and so in the list model (third part). Hence a listener removed
  by an earlier listener of the same cycle is still called in that cycle. It is not in
  the array afterwards, and a cycle that begins while a callback is not in the array
  does not call it (the last three parts). No step of the model can fail: \<^verbatim>\<open>push\<close>,
  \<^verbatim>\<open>filter\<close> and \<^verbatim>\<open>forEach\<close> do not raise.
\<close>

theorem notification_cycle_calls_start_array:
  assumes "array_store_ok c"
  shows "invoked_since (length (invoked c)) (emitChange_arr body c) = arrays c ! listeners_ref c
   \<and> view (emitChange_arr body c) = emitChange body (view c)
   \<and> invoked_since (length (invoked s)) (emitChange body s) = listeners s
   \<and> (l \<notin> set (listeners s)
        \<longrightarrow> l \<notin> set (invoked_since (length (invoked s)) (emitChange body s)))
   \<and> l \<notin> set (listeners (unsubscribe l s))
   \<and> l \<notin> set (invoked_since (length (invoked s)) (handleMouseMove body event (unsubscribe l s)))"
proof -
  have v: "view (emitChange_arr body c) = emitChange body (view c)"
    using emitChange_arr_view [OF assms] by simp
  have "invoked (emitChange_arr body c) = invoked (view (emitChange_arr body c))"
    by simp
  then have "invoked (emitChange_arr body c) = invoked c @ arrays c ! listeners_ref c"
    using v by simp
  then show ?thesis
    using v by (simp add: invoked_since_def)
qed

text \<open>
  Claim C2 as stated fails. The array holds listeners 1 and 2, and listener 1 calls the
  unsubscribe function of listener 2. After listener 1 has run, the variable refers to
  a new array without listener 2, yet the cycle goes on to call listener 2.
\<close>

theorem removed_listener_still_called_counterexample:
  "arrays two_listeners_arr ! listeners_ref two_listeners_arr = [1, 2]
   \<and> arrays (invoke_arr remover 1 two_listeners_arr)
        ! listeners_ref (invoke_arr remover 1 two_listeners_arr) = [1]
   \<and> invoked (emitChange_arr remover two_listeners_arr) = [1, 2]
   \<and> listeners (invoke remover 1 two_listeners) = [1]
   \<and> invoked (emitChange remover two_listeners) = [1, 2]"
  by (simp add: two_listeners_arr_def two_listeners_def createMousePositionStore_arr_def
      createMousePositionStore_def emitChange_arr_def emitChange_def invoke_arr_def invoke_def
      remover_def subscribe_arr_def unsubscribe_arr_def enter_def view_def forEach_arr.simps)

theorem notification_cycle_calls_start_array_witness:
  "array_store_ok two_listeners_arr
   \<and> invoked_since 0 (emitChange_arr remover two_listeners_arr) = [1, 2]
   \<and> 2 \<notin> set (listeners (emitChange remover two_listeners))
   \<and> invoked_since 2 (emitChange remover (emitChange remover two_listeners)) = [1]"
proof -
  have ok: "array_store_ok two_listeners_arr"
    by (simp add: two_listeners_arr_def subscribe_arr_view(2) created_arr_ok(1))
  have absent: "2 \<notin> set (listeners (emitChange remover two_listeners))"
    by (simp add: two_listeners_def createMousePositionStore_def emitChange_def invoke_def
        remover_def enter_def)
  have start: "arrays two_listeners_arr ! listeners_ref two_listeners_arr = [1, 2]"
    "invoked two_listeners_arr = []"
    by (simp_all add: two_listeners_arr_def createMousePositionStore_arr_def subscribe_arr_def)
  have len: "length (invoked (emitChange remover two_listeners)) = 2"
    "listeners (emitChange remover two_listeners) = [1]"
    by (simp_all add: two_listeners_def createMousePositionStore_def emitChange_def invoke_def
        remover_def enter_def)
  show ?thesis
    using notification_cycle_calls_start_array [OF ok, of remover
        "emitChange remover two_listeners" 2]
      ok absent start len
    by simp
qed

section \<open>Unsubscribing twice\<close>





section \<open>The cache is written before the listeners run\<close>

text \<open>
  Claim C4. When a mouse-move event is handled, the snapshot afterwards is an object
  with the event's coordinates, the listeners called are those registered when the
  event arrived, and every \<^verbatim>\<open>getSnapshot()\<close> call made by a listener during the cycle
  is made by one of them and returns that same object: no listener reads the previous
  position.
\<close>

theorem cache_updated_before_notification:
  "objects (handleMouseMove body event s) ! getSnapshot (handleMouseMove body event s)
      = \<lparr>pos_x = clientX event, pos_y = clientY event\<rparr>
   \<and> invoked_since (length (invoked s)) (handleMouseMove body event s) = listeners s
   \<and> (\<forall>p \<in> set (seen_since (length (seen s)) (handleMouseMove body event s)).
         fst p \<in> set (listeners s)
       \<and> snd p = getSnapshot (handleMouseMove body event s)
       \<and> objects (handleMouseMove body event s) ! snd p
            = \<lparr>pos_x = clientX event, pos_y = clientY event\<rparr>)"
  using handleMouseMove_seen [of _ s body event]
  by (auto simp: getSnapshot_def invoked_since_def)

theorem cache_updated_before_notification_witness:
  "seen_since 0 (handleMouseMove reader \<lparr>clientX = 3, clientY = 4\<rparr> two_listeners)
      = [(1, 1), (2, 1)]
   \<and> getSnapshot (handleMouseMove reader \<lparr>clientX = 3, clientY = 4\<rparr> two_listeners) = 1
   \<and> objects (handleMouseMove reader \<lparr>clientX = 3, clientY = 4\<rparr> two_listeners) ! 1
      = \<lparr>pos_x = 3, pos_y = 4\<rparr>"
  using cache_updated_before_notification [of reader "\<lparr>clientX = 3, clientY = 4\<rparr>" two_listeners]
  by (simp add: two_listeners_def createMousePositionStore_def handleMouseMove_def emitChange_def
      invoke_def reader_def seen_since_def getSnapshot_def enter_def read_snapshot_def
      set_position_def subscribe_def)

section \<open>Sequences of mouse-move events\<close>

text \<open>
  Claim C5, as the code has it. After a sequence of one or more mouse-move events the
  snapshot is an object with the coordinates of the last event. The number of calls of
  a callback \<open>l\<close> during the sequence is the sum, over the events, of the number of
  times \<open>l\<close> occurs in the array when the event arrives. So a callback that is in the
  array whenever an event arrives is called at least once, indeed at least once per
  event; and one that occurs there exactly once each time is called exactly once per
  event, which is the bound of the claim.
\<close>

theorem mousemoves_last_value_and_calls:
  assumes "evs \<noteq> []"
  shows "objects (mousemoves body evs s) ! getSnapshot (mousemoves body evs s)
           = \<lparr>pos_x = clientX (last evs), pos_y = clientY (last evs)\<rparr>
   \<and> count_list (invoked_since (length (invoked s)) (mousemoves body evs s)) l
       = sum_list (map (\<lambda>t. count_list (listeners t) l) (cycle_starts body evs s))
   \<and> ((\<forall>t\<in>set (cycle_starts body evs s). l \<in> set (listeners t))
        \<longrightarrow> 1 \<le> count_list (invoked_since (length (invoked s)) (mousemoves body evs s)) l
          \<and> length evs \<le> count_list (invoked_since (length (invoked s)) (mousemoves body evs s)) l)
   \<and> ((\<forall>t\<in>set (cycle_starts body evs s). count_list (listeners t) l = 1)
        \<longrightarrow> count_list (invoked_since (length (invoked s)) (mousemoves body evs s)) l = length evs)"
proof -
  let ?n = "count_list (invoked_since (length (invoked s)) (mousemoves body evs s)) l"
  let ?ts = "cycle_starts body evs s"
  have n: "?n = sum_list (map (\<lambda>t. count_list (listeners t) l) ?ts)"
    by (rule mousemoves_count)
  have lower: "length evs \<le> ?n" if "\<forall>t\<in>set ?ts. l \<in> set (listeners t)"
  proof -
    have "\<forall>t\<in>set ?ts. 1 \<le> count_list (listeners t) l"
    proof
      fix t assume "t \<in> set ?ts"
      then have "count_list (listeners t) l \<noteq> 0"
        using that by (simp add: count_list_0_iff)
      then show "1 \<le> count_list (listeners t) l" by simp
    qed
    then have "length ?ts \<le> sum_list (map (\<lambda>t. count_list (listeners t) l) ?ts)"
      by (rule sum_list_at_least_length)
    then show ?thesis using n by simp
  qed
  have one: "1 \<le> length evs"
    using assms by (cases evs) simp_all
  have lower1: "1 \<le> ?n" if "\<forall>t\<in>set ?ts. l \<in> set (listeners t)"
    using lower [OF that] one by simp
  have exact: "?n = length evs" if "\<forall>t\<in>set ?ts. count_list (listeners t) l = 1"
    using sum_list_all_one [of ?ts "\<lambda>t. count_list (listeners t) l"] that n by simp
  show ?thesis
    using mousemoves_last [OF assms] n lower lower1 exact by blast
qed

text \<open>
  Two events while listener 1 removes listener 2 during the first cycle: listener 1 is
  in the array once at both events and is called twice; the snapshot is the second
  event's position.
\<close>

theorem mousemoves_last_value_and_calls_witness:
  "[\<lparr>clientX = 3, clientY = 4\<rparr>, \<lparr>clientX = 5, clientY = 6\<rparr>] \<noteq> []
   \<and> map listeners
        (cycle_starts remover [\<lparr>clientX = 3, clientY = 4\<rparr>, \<lparr>clientX = 5, clientY = 6\<rparr>]
          two_listeners) = [[1, 2], [1]]
   \<and> count_list (invoked_since 0
        (mousemoves remover [\<lparr>clientX = 3, clientY = 4\<rparr>, \<lparr>clientX = 5, clientY = 6\<rparr>]
          two_listeners)) 1 = 2
   \<and> objects (mousemoves remover [\<lparr>clientX = 3, clientY = 4\<rparr>, \<lparr>clientX = 5, clientY = 6\<rparr>]
          two_listeners)
        ! getSnapshot (mousemoves remover
            [\<lparr>clientX = 3, clientY = 4\<rparr>, \<lparr>clientX = 5, clientY = 6\<rparr>] two_listeners)
      = \<lparr>pos_x = 5, pos_y = 6\<rparr>"
  using mousemoves_last_value_and_calls [of
      "[\<lparr>clientX = 3, clientY = 4\<rparr>, \<lparr>clientX = 5, clientY = 6\<rparr>]" remover two_listeners 1]
  by (simp add: two_listeners_def createMousePositionStore_def handleMouseMove_def emitChange_def
      invoke_def remover_def invoked_since_def getSnapshot_def enter_def set_position_def
      subscribe_def unsubscribe_def)

text \<open>
  Claim C5 as stated fails in its upper bound. The same function has been passed to
  \<^verbatim>\<open>subscribe\<close> twice; it is registered before and after the one event of the
  sequence, and it is called twice.
\<close>

theorem callback_called_more_than_once_per_event_counterexample:
  "listeners twice_subscribed = [7, 7]
   \<and> listeners (mousemoves quiet [\<lparr>clientX = 3, clientY = 4\<rparr>] twice_subscribed) = [7, 7]
   \<and> length [\<lparr>clientX = 3, clientY = 4\<rparr>] = 1
   \<and> count_list (invoked_since 0 (mousemoves quiet [\<lparr>clientX = 3, clientY = 4\<rparr>] twice_subscribed)) 7
       = 2"
  by (simp add: twice_subscribed_def createMousePositionStore_def handleMouseMove_def
      emitChange_def invoke_def quiet_def invoked_since_def enter_def set_position_def
      subscribe_def)

section \<open>Identity of registrations\<close>




section \<open>Reading the viewport size\<close>

text \<open>
  Claim C8, as the code has it. The size \<open>0 \<times> 0\<close> is what the server snapshot returns
  and what the \<^verbatim>\<open>useState\<close> variant returns at its first render. In the browser the
  \<^verbatim>\<open>useSyncExternalStore\<close> variant returns the window's current size, resize event or
  not, and the \<^verbatim>\<open>useState\<close> variant holds it as soon as its effect has run. After a
  resize to 800 by 600 both return exactly that.
\<close>

theorem windowSize_reads:
  "snd (useWindowSize_sync Server heap) ! fst (useWindowSize_sync Server heap)
      = \<lparr>width = 0, height = 0\<rparr>
   \<and> windowSize useWindowSize_initial = \<lparr>width = 0, height = 0\<rparr>
   \<and> snd (useWindowSize_sync (Client w) heap) ! fst (useWindowSize_sync (Client w) heap)
      = \<lparr>width = innerWidth w, height = innerHeight w\<rparr>
   \<and> windowSize (useWindowSize_mount w useWindowSize_initial)
      = \<lparr>width = innerWidth w, height = innerHeight w\<rparr>
   \<and> snd (useWindowSize_sync (Client (resize 800 600 w)) heap)
        ! fst (useWindowSize_sync (Client (resize 800 600 w)) heap)
      = \<lparr>width = 800, height = 600\<rparr>
   \<and> windowSize (window_resize (resize 800 600 w) (useWindowSize_mount w useWindowSize_initial))
      = \<lparr>width = 800, height = 600\<rparr>"
  by (simp add: useWindowSize_sync_def getSnapshot_windowSize_def getServerSnapshot_windowSize_def
      useWindowSize_mount_def handleResize_def useWindowSize_initial_def window_resize_def
      resize_def)

theorem windowSize_reads_witness:
  "windowSize (window_resize (resize 800 600 desktop)
       (useWindowSize_mount desktop useWindowSize_initial)) = \<lparr>width = 800, height = 600\<rparr>
   \<and> innerWidth (resize 800 600 desktop) = 800
   \<and> listening (useWindowSize_mount desktop useWindowSize_initial)"
  using windowSize_reads [of "[]" desktop]
  by (simp add: useWindowSize_mount_def resize_def)

text \<open>
  Claim C8 as stated fails. In a browser whose window is 1024 by 768, with no resize
  event so far, the \<^verbatim>\<open>useSyncExternalStore\<close> variant returns that size and not
  \<open>0 \<times> 0\<close>, and the \<^verbatim>\<open>useState\<close> variant holds it once mounted.
\<close>

theorem windowSize_initial_read_counterexample:
  "snd (useWindowSize_sync (Client desktop) []) ! fst (useWindowSize_sync (Client desktop) [])
      = \<lparr>width = 1024, height = 768\<rparr>
   \<and> snd (useWindowSize_sync (Client desktop) []) ! fst (useWindowSize_sync (Client desktop) [])
      \<noteq> \<lparr>width = 0, height = 0\<rparr>
   \<and> windowSize (useWindowSize_mount desktop useWindowSize_initial) = \<lparr>width = 1024, height = 768\<rparr>"
  by (simp add: useWindowSize_sync_def getSnapshot_windowSize_def desktop_def
      useWindowSize_mount_def handleResize_def useWindowSize_initial_def)

section \<open>Reading and writing the stored value\<close>

lemma json_chars_escape:
  "json_chars (concat (map json_escape v) @ [CHR 0x22]) = Some v"
  by (induction v) (auto simp: json_escape_def)

lemma JSON_roundtrip: "JSON_parse (JSON_stringify v) = Inr v"
  by (simp add: JSON_parse_def JSON_stringify_def json_chars_escape)

lemma JSON_stringify_nonempty: "JSON_stringify v \<noteq> []"
  by (simp add: JSON_stringify_def)

text \<open>
  An entry that is the empty string does not pass \<^verbatim>\<open>if (storedValue)\<close>: neither variant
  calls \<^verbatim>\<open>deserialize\<close> on it, and the browser is left as it is.
\<close>

lemma empty_entry_skipped:
  assumes "localStorage b key = Some []"
  shows "getStorageValue key d deserialize b = (resolve d, b)"
    and "initial_state key d deserialize b = (resolve d, b)"
  using assms by (simp_all add: getStorageValue_def initial_state_def)

text \<open>
  Claim C6, as the code has it. When the entry under the key is a non-empty text on
  which \<^verbatim>\<open>deserialize\<close> fails, neither variant lets the error out: both return the
  default value (calling it if it is a producer). The \<^verbatim>\<open>useSyncExternalStore\<close> variant
  leaves the entry and logs the error with \<^verbatim>\<open>console.error\<close>; the \<^verbatim>\<open>useState\<close> variant
  logs nothing and removes the entry.
\<close>

theorem corrupt_entry_falls_back:
  assumes "localStorage b key = Some raw" and "raw \<noteq> []" and "deserialize raw = Inl err"
  shows "fst (getStorageValue key d deserialize b) = resolve d
   \<and> localStorage (snd (getStorageValue key d deserialize b)) = localStorage b
   \<and> console_error (snd (getStorageValue key d deserialize b))
       = console_error b @ [(deserializing_message key, err)]
   \<and> fst (initial_state key d deserialize b) = resolve d
   \<and> console_error (snd (initial_state key d deserialize b)) = console_error b
   \<and> localStorage (snd (initial_state key d deserialize b)) = (localStorage b)(key := None)"
  using assms by (simp add: getStorageValue_def initial_state_def)

theorem corrupt_entry_falls_back_witness:
  "localStorage corrupt_browser ''theme'' = Some ''{bad''
   \<and> ''{bad'' \<noteq> []
   \<and> JSON_parse ''{bad'' = Inl SyntaxError
   \<and> getStorageValue ''theme'' (Literal ''light'') JSON_parse corrupt_browser
       = (''light'', corrupt_browser\<lparr>console_error :=
            [(deserializing_message ''theme'', SyntaxError)]\<rparr>)
   \<and> initial_state ''theme'' (Producer (\<lambda>_. ''light'')) JSON_parse corrupt_browser
       = (''light'', empty_browser)"
  using corrupt_entry_falls_back [of corrupt_browser "''theme''" "''{bad''" JSON_parse SyntaxError
      "Literal ''light''"]
  by (simp add: corrupt_browser_def empty_browser_def JSON_parse_def getStorageValue_def
      initial_state_def)

text \<open>
  Claim C6 as stated fails where it says the failure is reported. With the corrupt
  entry \<^verbatim>\<open>{bad\<close> the \<^verbatim>\<open>useState\<close> variant logs nothing. With an empty entry, on which
  \<^verbatim>\<open>JSON.parse\<close> fails as well, the \<^verbatim>\<open>useSyncExternalStore\<close> variant logs nothing either.
\<close>

theorem corrupt_entry_not_reported_counterexample:
  "localStorage corrupt_browser ''theme'' = Some ''{bad''
   \<and> JSON_parse ''{bad'' = Inl SyntaxError
   \<and> console_error (snd (initial_state ''theme'' (Literal ''light'') JSON_parse corrupt_browser)) = []
   \<and> localStorage blank_browser ''theme'' = Some []
   \<and> JSON_parse [] = Inl SyntaxError
   \<and> console_error (snd (getStorageValue ''theme'' (Literal ''light'') JSON_parse blank_browser)) = []"
  by (simp add: corrupt_browser_def blank_browser_def empty_browser_def JSON_parse_def
      getStorageValue_def initial_state_def)

text \<open>
  Claim C7. For the \<^verbatim>\<open>useSyncExternalStore\<close> variant with key \<^verbatim>\<open>"theme"\<close> and default
  \<^verbatim>\<open>"light"\<close>, and a serializer and deserializer that round-trip the written value to
  a non-empty text: with no entry stored a read returns \<^verbatim>\<open>"light"\<close>; after
  \<^verbatim>\<open>setValue("dark")\<close> a read returns \<^verbatim>\<open>"dark"\<close> and the entry under \<^verbatim>\<open>"theme"\<close> is the
  serialized \<^verbatim>\<open>"dark"\<close>. The witness takes the default pair, for which the entry is
  \<^verbatim>\<open>dark\<close> between double quotes.
\<close>

theorem theme_roundtrip:
  assumes "deserialize (serialize ''dark'') = Inr ''dark''" and "serialize ''dark'' \<noteq> []"
  shows "(localStorage b ''theme'' = None
        \<longrightarrow> fst (getStorageValue ''theme'' (Literal ''light'') deserialize b) = ''light'')
   \<and> fst (getStorageValue ''theme'' (Literal ''light'') deserialize
         (setValue ''theme'' serialize cur (Value ''dark'') b)) = ''dark''
   \<and> localStorage (setValue ''theme'' serialize cur (Value ''dark'') b) ''theme''
       = Some (serialize ''dark'')"
  using assms by (simp add: getStorageValue_def setValue_def)

theorem theme_roundtrip_witness:
  "JSON_parse (JSON_stringify ''dark'') = Inr ''dark''
   \<and> JSON_stringify ''dark'' = [CHR 0x22] @ ''dark'' @ [CHR 0x22]
   \<and> localStorage empty_browser ''theme'' = None
   \<and> fst (getStorageValue ''theme'' (Literal ''light'') JSON_parse empty_browser) = ''light''
   \<and> fst (getStorageValue ''theme'' (Literal ''light'') JSON_parse
         (setValue ''theme'' JSON_stringify ''light'' (Value ''dark'') empty_browser)) = ''dark''
   \<and> localStorage (setValue ''theme'' JSON_stringify ''light'' (Value ''dark'') empty_browser) ''theme''
       = Some ([CHR 0x22] @ ''dark'' @ [CHR 0x22])"
proof -
  have enc: "JSON_stringify ''dark'' = [CHR 0x22] @ ''dark'' @ [CHR 0x22]"
    by (simp add: JSON_stringify_def json_escape_def)
  have rt: "JSON_parse (JSON_stringify ''dark'') = Inr ''dark''"
    by (rule JSON_roundtrip)
  have ne: "JSON_stringify ''dark'' \<noteq> []"
    by (rule JSON_stringify_nonempty)
  have absent: "localStorage empty_browser ''theme'' = None"
    by (simp add: empty_browser_def)
  show ?thesis
    using theme_roundtrip [of JSON_parse JSON_stringify empty_browser "''light''", OF rt ne]
      enc rt absent
    by simp
qed

end
